theory Spec2Isabelle
  imports Main "HOL-Library.Multiset"
begin

section \<open>Python values used by colls.py\<close>

text \<open>
  Python strings are modelled as \<^typ>\<open>string\<close>; a character stands for a code point
  in the range 0..255. Exceptions are values of \<open>py_error\<close>, and a function that can
  raise returns \<open>py_error + 'a\<close> with \<open>Inl\<close> for the exception.
\<close>

datatype py_error = ValueError | IndexError

abbreviation ESC :: char where
  "ESC \<equiv> CHR 0x1B"

abbreviation DQ :: char where
  "DQ \<equiv> CHR 0x22"

text \<open>\<open>str.isspace\<close> on one character (code points below 256).\<close>

definition isspace :: "char \<Rightarrow> bool" where
  "isspace c = ((of_char c :: nat) \<in> set [9, 10, 11, 12, 13, 28, 29, 30, 31, 32, 133, 160])"

text \<open>\<open>s.strip()\<close>\<close>

definition py_strip :: "string \<Rightarrow> string" where
  "py_strip s = rev (dropWhile isspace (rev (dropWhile isspace s)))"

text \<open>\<open>s.split(maxsplit=n)\<close>: runs of whitespace separate the units; after \<open>n\<close>
  splits the remainder, without its leading whitespace, is the last unit.\<close>

fun py_split :: "nat \<Rightarrow> string \<Rightarrow> string list" where
  "py_split 0 s =
     (let r = dropWhile isspace s in if r = [] then [] else [r])"
| "py_split (Suc n) s =
     (let r = dropWhile isspace s in
      if r = [] then []
      else takeWhile (\<lambda>c. \<not> isspace c) r # py_split n (dropWhile (\<lambda>c. \<not> isspace c) r))"

text \<open>\<open>s.find(sub)\<close> for the first occurrence of a substring, \<open>None\<close> for \<open>-1\<close>.\<close>

fun find_sub :: "string \<Rightarrow> string \<Rightarrow> nat option" where
  "find_sub sub [] = (if sub = [] then Some 0 else None)"
| "find_sub sub (c # cs) =
     (if take (length sub) (c # cs) = sub then Some 0
      else map_option Suc (find_sub sub cs))"

text \<open>\<open>sub in s\<close>\<close>

definition py_in :: "string \<Rightarrow> string \<Rightarrow> bool" where
  "py_in sub s = (find_sub sub s \<noteq> None)"

text \<open>\<open>s.split(sep, 1)\<close>\<close>

definition py_split1 :: "string \<Rightarrow> string \<Rightarrow> string list" where
  "py_split1 sep s =
     (case find_sub sep s of
        None \<Rightarrow> [s]
      | Some i \<Rightarrow> [take i s, drop (i + length sep) s])"

text \<open>\<open>s.find(c)\<close> and \<open>s.rfind(c)\<close> for one character: the index, or \<open>-1\<close>.\<close>

fun py_find :: "char \<Rightarrow> string \<Rightarrow> int" where
  "py_find q [] = -1"
| "py_find q (c # cs) =
     (if c = q then 0 else (let r = py_find q cs in if r < 0 then -1 else r + 1))"

definition py_rfind :: "char \<Rightarrow> string \<Rightarrow> int" where
  "py_rfind q s =
     (let r = py_find q (rev s) in if r < 0 then -1 else int (length s) - 1 - r)"

text \<open>Slices \<open>s[a:b]\<close>, \<open>s[a:]\<close> and \<open>s[:b]\<close>: a negative bound counts from the end,
  and bounds are clamped to the string.\<close>

definition slice_bound :: "string \<Rightarrow> int \<Rightarrow> nat" where
  "slice_bound s k =
     (let n = int (length s); j = (if k < 0 then k + n else k)
      in if j < 0 then 0 else if n < j then length s else nat j)"

definition py_slice :: "string \<Rightarrow> int \<Rightarrow> int \<Rightarrow> string" where
  "py_slice s a b = drop (slice_bound s a) (take (slice_bound s b) s)"

definition py_slice_from :: "string \<Rightarrow> int \<Rightarrow> string" where
  "py_slice_from s a = drop (slice_bound s a) s"

definition py_slice_to :: "string \<Rightarrow> int \<Rightarrow> string" where
  "py_slice_to s b = take (slice_bound s b) s"

text \<open>\<open>s.ljust(w)\<close>\<close>

definition ljust :: "string \<Rightarrow> nat \<Rightarrow> string" where
  "ljust s w = s @ replicate (w - length s) CHR '' ''"

text \<open>\<open>xs[i]\<close> for an index that is not negative.\<close>

definition py_get :: "'a list \<Rightarrow> nat \<Rightarrow> py_error + 'a" where
  "py_get xs i = (if i < length xs then Inr (xs ! i) else Inl IndexError)"

text \<open>\<open>str(n)\<close> for a count.\<close>

fun str_nat :: "nat \<Rightarrow> string" where
  "str_nat n =
     (if n < 10 then [char_of (48 + n)]
      else str_nat (n div 10) @ [char_of (48 + n mod 10)])"

declare str_nat.simps [simp del]

section \<open>Escape sequences\<close>

text \<open>
  One attempt of the regular expression \<open>\x1b\[([0-9;]*)[T]\<close> at the start of a string,
  where \<open>T\<close> is the set of terminators: the parameter string and the text after the match.
  The parameter characters and the terminators are disjoint, so the greedy star has
  one way to match.
\<close>

definition is_param :: "char \<Rightarrow> bool" where
  "is_param c = (c \<in> set ''0123456789;'')"

fun match_escape :: "string \<Rightarrow> string \<Rightarrow> (string \<times> string) option" where
  "match_escape ts (e # b # rest) =
     (if e = ESC \<and> b = CHR ''[''
      then (case dropWhile is_param rest of
              [] \<Rightarrow> None
            | t # rest' \<Rightarrow>
                if t \<in> set ts then Some (takeWhile is_param rest, rest') else None)
      else None)"
| "match_escape ts _ = None"

lemma match_escape_Some:
  assumes "match_escape ts s = Some (p, r)"
  shows "\<exists>t. s = ESC # CHR ''['' # p @ t # r \<and> t \<in> set ts \<and> (\<forall>c\<in>set p. is_param c)
           \<and> \<not> is_param t"
proof (cases s)
  case Nil
  with assms show ?thesis by simp
next
  case (Cons e s')
  note s = Cons
  show ?thesis
  proof (cases s')
    case Nil
    with assms s show ?thesis by simp
  next
    case (Cons b rest)
    from assms s Cons have eb: "e = ESC" "b = CHR ''[''"
      by (auto split: if_splits)
    from assms s Cons eb obtain t rest' where
      d: "dropWhile is_param rest = t # rest'" and t: "t \<in> set ts"
      and p: "p = takeWhile is_param rest" and r: "r = rest'"
      by (auto split: list.splits if_splits)
    have "rest = takeWhile is_param rest @ dropWhile is_param rest"
      by simp
    with d p r have rest: "rest = p @ t # r" by simp
    have nt: "\<not> is_param t"
      using d by (metis hd_dropWhile list.sel(1) list.distinct(1))
    have "\<forall>c\<in>set p. is_param c"
      unfolding p by (auto dest: set_takeWhileD)
    with rest t nt s Cons eb show ?thesis by simp
  qed
qed

lemma match_escape_shorter:
  "match_escape ts s = Some (p, r) \<Longrightarrow> length r < length s"
  by (drule match_escape_Some) auto

text \<open>\<open>re.sub(r'\x1b\[[0-9;]*[mK]', '', text)\<close>: the matches are found from left to
  right, each search starting where the last match ended.\<close>

function strip_ansi_codes :: "string \<Rightarrow> string" where
  "strip_ansi_codes [] = []"
| "strip_ansi_codes (c # cs) =
     (case match_escape ''mK'' (c # cs) of
        Some (p, rest) \<Rightarrow> strip_ansi_codes rest
      | None \<Rightarrow> c # strip_ansi_codes cs)"
  by pat_completeness auto
termination
  by (relation "measure length") (auto dest: match_escape_shorter)

text \<open>\<open>[m.group(1) for m in re.finditer(r'\x1b\[([0-9;]*)m', text)]\<close>\<close>

function finditer_m :: "string \<Rightarrow> string list" where
  "finditer_m [] = []"
| "finditer_m (c # cs) =
     (case match_escape ''m'' (c # cs) of
        Some (p, rest) \<Rightarrow> p # finditer_m rest
      | None \<Rightarrow> finditer_m cs)"
  by pat_completeness auto
termination
  by (relation "measure length") (auto dest: match_escape_shorter)

definition get_color_code :: "string \<Rightarrow> string" where
  "get_color_code text =
     (case List.find (\<lambda>code. code \<noteq> ''0'') (rev (finditer_m text)) of
        Some code \<Rightarrow> [ESC, CHR ''[''] @ code @ ''m''
      | None \<Rightarrow> [])"

section \<open>Quote unwrapper\<close>

definition indicators :: string where
  "indicators = ''*/@|=''"

definition strip_quotes_python :: "string \<Rightarrow> bool \<Rightarrow> string" where
  "strip_quotes_python col keep_indicator =
     (if col = [] then col
      else
        let clean = strip_ansi_codes col in
        if \<not> (take 1 clean = [DQ] \<and> DQ \<in> set (py_slice_from clean 1)) then col
        else
          let start = py_find DQ col;
              end = py_rfind DQ col + 1;
              content = py_slice col (start + 1) (end - 1);
              indicator =
                (if end < int (length col) \<and> col ! nat end \<in> set indicators
                 then [col ! nat end] else []);
              result = py_slice_to col start @ content;
              result = (if keep_indicator \<and> indicator \<noteq> [] then result @ indicator else result);
              ansi_tail =
                (if end + int (length indicator) < int (length col)
                 then py_slice_from col (end + int (length indicator)) else []);
              result = (if ansi_tail \<noteq> [] \<and> take 1 ansi_tail \<noteq> [DQ]
                        then result @ ansi_tail else result)
          in result)"

section \<open>Line tokenizer\<close>

text \<open>
  \<open>filename, rest = filename_part.split(' -> ', 1)\<close> unpacks a list of two; on a list
  of one Python raises \<open>ValueError\<close>.
\<close>

definition split_line_into_columns :: "string \<Rightarrow> py_error + string list" where
  "split_line_into_columns line =
     (let parts = py_split 8 (py_strip line);
          parts = (if length parts < 9 then parts @ replicate (9 - length parts) [] else parts);
          filename_part = parts ! 8
      in if py_in '' -> '' (strip_ansi_codes filename_part)
         then (case py_split1 '' -> '' filename_part of
                 [filename, rest] \<Rightarrow>
                   Inr [parts ! 0, parts ! 1, parts ! 2, parts ! 3, parts ! 4,
                        parts ! 5, parts ! 6, parts ! 7, filename, ''->'', rest]
               | _ \<Rightarrow> Inl ValueError)
         else Inr [parts ! 0, parts ! 1, parts ! 2, parts ! 3, parts ! 4,
                   parts ! 5, parts ! 6, parts ! 7, filename_part, '' '', '' ''])"

section \<open>Width calculator\<close>

text \<open>The dictionary \<open>extra_widths\<close> has the two keys \<open>'0'\<close> and \<open>'*'\<close> from its
  creation on; only their values change.\<close>

record extra_widths =
  ew_arrow :: nat
  ew_target :: nat

type_synonym width_table = "nat list \<times> extra_widths"

text \<open>The inner loop \<open>for i, col in enumerate(columns)\<close>.\<close>

definition width_update :: "string \<Rightarrow> string \<Rightarrow> string \<Rightarrow> nat \<Rightarrow> string \<Rightarrow> width_table \<Rightarrow> width_table" where
  "width_update filename arrow target i col st =
     (let widths = fst st; extra = snd st;
          display_col =
            (if i = 8 then strip_ansi_codes filename
             else if i = 9 then arrow
             else if i = 10 then strip_ansi_codes target
             else strip_ansi_codes col);
          extra =
            (if i = 9 then extra\<lparr>ew_arrow := max (ew_arrow extra) (length display_col)\<rparr>
             else if i = 10 then extra\<lparr>ew_target := max (ew_target extra) (length display_col)\<rparr>
             else extra)
      in (widths[i := max (widths ! i) (length display_col)], extra))"

fun width_loop :: "string \<Rightarrow> string \<Rightarrow> string \<Rightarrow> (nat \<times> string) list \<Rightarrow> width_table \<Rightarrow> width_table" where
  "width_loop filename arrow target [] st = st"
| "width_loop filename arrow target ((i, col) # rest) st =
     width_loop filename arrow target rest (width_update filename arrow target i col st)"

text \<open>The body of \<open>for line in lines\<close>.\<close>

definition width_step :: "bool \<Rightarrow> string \<Rightarrow> width_table \<Rightarrow> py_error + width_table" where
  "width_step strip_quotes line st =
     (case split_line_into_columns line of
        Inl e \<Rightarrow> Inl e
      | Inr columns \<Rightarrow>
          if length columns = 11 then
            let filename = (if strip_quotes then strip_quotes_python (columns ! 8) True
                            else columns ! 8);
                arrow = strip_ansi_codes (columns ! 9);
                target = (if strip_quotes then strip_quotes_python (columns ! 10) True
                          else columns ! 10)
            in Inr (width_loop filename arrow target (enumerate 0 columns) st)
          else Inr st)"

fun widths_lines :: "bool \<Rightarrow> string list \<Rightarrow> width_table \<Rightarrow> py_error + width_table" where
  "widths_lines strip_quotes [] st = Inr st"
| "widths_lines strip_quotes (line # lines) st =
     (case width_step strip_quotes line st of
        Inl e \<Rightarrow> Inl e
      | Inr st' \<Rightarrow> widths_lines strip_quotes lines st')"

definition calculate_column_widths :: "string list \<Rightarrow> bool \<Rightarrow> py_error + width_table" where
  "calculate_column_widths lines strip_quotes =
     widths_lines strip_quotes lines (replicate 11 0, \<lparr>ew_arrow = 4, ew_target = 0\<rparr>)"

section \<open>Table renderer\<close>

record config =
  use_quotes :: bool
  show_header :: bool
  max_pad :: int
  columns_to_show :: string
  separators :: "string list"

text \<open>\<open>int(c)\<close> for a digit character.\<close>

definition digit_val :: "char \<Rightarrow> nat" where
  "digit_val c = of_char c - 48"

text \<open>The joining loop shared by the header and the rows:
  \<open>for i, part in enumerate(parts[1:], 1)\<close>.\<close>

fun join_loop :: "string list \<Rightarrow> nat \<Rightarrow> string list \<Rightarrow> string \<Rightarrow> string" where
  "join_loop seps i [] output = output"
| "join_loop seps i (part # parts) output =
     join_loop seps (Suc i) parts
       (output @ (if i - 1 < length seps then seps ! (i - 1) else '' '') @ part)"

definition header_part :: "nat list \<Rightarrow> extra_widths \<Rightarrow> char \<Rightarrow> string list" where
  "header_part widths extra i =
     (if i \<in> set ''123456789'' then [ljust [i] (widths ! (digit_val i - 1))]
      else if i = CHR ''0'' then [ljust ''0'' (ew_arrow extra)]
      else if i = CHR ''*'' then [ljust ''*'' (ew_target extra)]
      else [])"

fun header_parts :: "nat list \<Rightarrow> extra_widths \<Rightarrow> string \<Rightarrow> string list" where
  "header_parts widths extra [] = []"
| "header_parts widths extra (i # rest) = header_part widths extra i @ header_parts widths extra rest"

definition print_header :: "nat list \<Rightarrow> extra_widths \<Rightarrow> string \<Rightarrow> string list \<Rightarrow> py_error + string" where
  "print_header widths extra cts seps =
     (case header_parts widths extra cts of
        [] \<Rightarrow> Inl IndexError
      | p # ps \<Rightarrow> Inr (join_loop seps 1 ps p))"

text \<open>Lines 266 to 270: the display values of the filename and the target.\<close>

definition display_cols_of :: "bool \<Rightarrow> string list \<Rightarrow> string list" where
  "display_cols_of quotes columns =
     (if \<not> quotes
      then (columns[8 := strip_quotes_python (columns ! 8) True])
             [10 := (if py_strip (strip_ansi_codes (columns ! 10)) \<noteq> []
                     then strip_quotes_python (columns ! 10) True else columns ! 10)]
      else columns)"

text \<open>Lines 271 to 280: one output value for each selected column.\<close>

definition output_col :: "string list \<Rightarrow> extra_widths \<Rightarrow> char \<Rightarrow> string list" where
  "output_col display_cols extra col =
     (if col \<in> set ''123456789'' then [display_cols ! (digit_val col - 1)]
      else if col = CHR ''0'' then
        [if py_strip (strip_ansi_codes (display_cols ! 10)) \<noteq> [] then '' -> '' else ''    '']
      else if col = CHR ''*'' then
        [if py_strip (strip_ansi_codes (display_cols ! 10)) \<noteq> [] then display_cols ! 10
         else replicate (ew_target extra) CHR '' '']
      else [])"

fun output_cols_loop :: "string list \<Rightarrow> extra_widths \<Rightarrow> string \<Rightarrow> string list" where
  "output_cols_loop display_cols extra [] = []"
| "output_cols_loop display_cols extra (col # rest) =
     output_col display_cols extra col @ output_cols_loop display_cols extra rest"

text \<open>The condition \<open>has_following\<close> at index \<open>i\<close>, where \<open>rest\<close> is the selection after
  index \<open>i\<close>. The conjunction is evaluated from the left, so \<open>output_cols[i+1]\<close> is read
  only when a valid column identifier follows.\<close>

definition has_following :: "string list \<Rightarrow> nat \<Rightarrow> string \<Rightarrow> py_error + bool" where
  "has_following output_cols i rest =
     (case rest of
        [] \<Rightarrow> Inr False
      | c' # _ \<Rightarrow>
          if c' \<in> set ''1234567890*'' then
            (case py_get output_cols (i + 1) of
               Inl e \<Rightarrow> Inl e
             | Inr nxt \<Rightarrow> Inr (py_strip (strip_ansi_codes nxt) \<noteq> []))
          else Inr False)"

text \<open>The reverse-video padding of line 294.\<close>

definition reverse_padding :: "string \<Rightarrow> int \<Rightarrow> string" where
  "reverse_padding color padding_len =
     color @ [ESC] @ ''[7m'' @ replicate (nat padding_len) CHR '' '' @ [ESC] @ ''[27m'' @ [ESC] @ ''[0m''"

text \<open>The body of the loop of lines 283 to 301 at index \<open>i\<close> with column identifier
  \<open>c\<close>, where \<open>rest\<close> is the selection after index \<open>i\<close>: the list \<open>selected_padded\<close>
  after the step.\<close>

definition pad_step :: "int \<Rightarrow> nat list \<Rightarrow> extra_widths \<Rightarrow> string list \<Rightarrow> nat \<Rightarrow> char \<Rightarrow> string
    \<Rightarrow> string list \<Rightarrow> py_error + string list" where
  "pad_step mp widths extra output_cols i c rest selected_padded =
     (if c \<in> set ''123456789'' \<or> c = CHR ''*'' then
        (case py_get output_cols i of
           Inl e \<Rightarrow> Inl e
         | Inr col \<Rightarrow>
             let visible_len = length (strip_ansi_codes col);
                 padding_len =
                   int (if c \<in> set ''123456789'' then widths ! (digit_val c - 1)
                        else ew_target extra) - int visible_len
             in (case has_following output_cols i rest of
                   Inl e \<Rightarrow> Inl e
                 | Inr following \<Rightarrow>
                     if (c = CHR ''9'' \<or> c = CHR ''*'') \<and> 0 < mp \<and> mp \<le> padding_len \<and> following
                     then
                       let color = get_color_code col;
                           padding = reverse_padding color padding_len;
                           selected_padded =
                             (if i < length selected_padded \<and> color \<noteq> []
                              then butlast selected_padded @ [last selected_padded @ color]
                              else selected_padded)
                       in Inr (selected_padded @ [col @ padding])
                     else
                       Inr (selected_padded @ [col @ replicate (nat padding_len) CHR '' ''])))
      else if c = CHR ''0'' then
        (case py_get output_cols i of
           Inl e \<Rightarrow> Inl e
         | Inr col \<Rightarrow> Inr (selected_padded @ [ljust col (ew_arrow extra)]))
      else Inr selected_padded)"

text \<open>\<open>for i, c in enumerate(columns_to_show)\<close>: the fifth argument is the index \<open>i\<close>
  and the sixth the selection from index \<open>i\<close> on.\<close>

fun pad_loop :: "int \<Rightarrow> nat list \<Rightarrow> extra_widths \<Rightarrow> string list \<Rightarrow> nat \<Rightarrow> string \<Rightarrow> string list
    \<Rightarrow> py_error + string list" where
  "pad_loop mp widths extra output_cols i [] selected_padded = Inr selected_padded"
| "pad_loop mp widths extra output_cols i (c # rest) selected_padded =
     (case pad_step mp widths extra output_cols i c rest selected_padded of
        Inl e \<Rightarrow> Inl e
      | Inr selected_padded' \<Rightarrow>
          pad_loop mp widths extra output_cols (Suc i) rest selected_padded')"

text \<open>Lines 271 to 301 for one tokenized line.\<close>

definition render_columns :: "config \<Rightarrow> nat list \<Rightarrow> extra_widths \<Rightarrow> string list \<Rightarrow> py_error + string list" where
  "render_columns cfg widths extra display_cols =
     pad_loop (max_pad cfg) widths extra
       (output_cols_loop display_cols extra (columns_to_show cfg)) 0 (columns_to_show cfg) []"

text \<open>The body of the rendering loop, lines 263 to 308: the printed line and the
  increment of \<open>file_count\<close>.\<close>

definition process_line :: "config \<Rightarrow> nat list \<Rightarrow> extra_widths \<Rightarrow> string \<Rightarrow> py_error + (string \<times> nat)" where
  "process_line cfg widths extra line =
     (case split_line_into_columns line of
        Inl e \<Rightarrow> Inl e
      | Inr columns \<Rightarrow>
          if length columns = 11 then
            (case render_columns cfg widths extra (display_cols_of (use_quotes cfg) columns) of
               Inl e \<Rightarrow> Inl e
             | Inr [] \<Rightarrow> Inl IndexError
             | Inr (p # ps) \<Rightarrow> Inr (join_loop (separators cfg) 1 ps p, 1))
          else Inr (line, 0))"

fun lines_loop :: "config \<Rightarrow> nat list \<Rightarrow> extra_widths \<Rightarrow> string list \<Rightarrow> nat
    \<Rightarrow> py_error + (string list \<times> nat)" where
  "lines_loop cfg widths extra [] file_count = Inr ([], file_count)"
| "lines_loop cfg widths extra (line # lines) file_count =
     (case process_line cfg widths extra line of
        Inl e \<Rightarrow> Inl e
      | Inr (out, k) \<Rightarrow>
          (case lines_loop cfg widths extra lines (file_count + k) of
             Inl e \<Rightarrow> Inl e
           | Inr (outs, n) \<Rightarrow> Inr (out # outs, n)))"

text \<open>
  \<open>main\<close> from line 251 on, given the configuration read from the command line and the
  lines of the listing: the lines printed, or the exception that ends the run (the lines
  printed before the exception are not kept). Reading the command line and running
  \<open>ls\<close> are not modelled.
\<close>

definition main_print :: "config \<Rightarrow> string list \<Rightarrow> py_error + string list" where
  "main_print cfg lines0 =
     (let total = (if lines0 \<noteq> [] \<and> take 5 (hd lines0) = ''total'' then [hd lines0] else []);
          lines = (if total \<noteq> [] then tl lines0 else lines0)
      in case calculate_column_widths lines True of
           Inl e \<Rightarrow> Inl e
         | Inr (widths, extra) \<Rightarrow>
             (case (if show_header cfg
                    then (case print_header widths extra (columns_to_show cfg) (separators cfg) of
                            Inl e \<Rightarrow> Inl e | Inr h \<Rightarrow> Inr [h])
                    else Inr []) of
                Inl e \<Rightarrow> Inl e
              | Inr header \<Rightarrow>
                  (case lines_loop cfg widths extra lines 0 of
                     Inl e \<Rightarrow> Inl e
                   | Inr (outs, file_count) \<Rightarrow>
                       Inr (total @ header @ outs @ [str_nat file_count @ '' found'']))))"

text \<open>The configuration when no option is given (lines 202 to 228).\<close>

definition default_config :: config where
  "default_config =
     \<lparr>use_quotes = False, show_header = False, max_pad = 5,
      columns_to_show = ''1234567890*'', separators = replicate 10 '' ''\<rparr>"

section \<open>Inputs of the scenarios\<close>

text \<open>A predicate on texts: every escape character starts an escape sequence that
  \<open>strip_ansi_codes\<close> recognizes.\<close>

fun every_esc_starts_span :: "string \<Rightarrow> bool" where
  "every_esc_starts_span [] = True"
| "every_esc_starts_span (c # cs) =
     ((c \<noteq> ESC \<or> match_escape ''mK'' (c # cs) \<noteq> None) \<and> every_esc_starts_span cs)"

definition colored_text :: string where
  "colored_text = [ESC] @ ''[01;34mdir'' @ [ESC] @ ''[0m/ '' @ [ESC] @ ''[K''"

text \<open>An unmatched escape character before an escape sequence, and the rest of a
  sequence after it.\<close>

definition nested_escape :: string where
  "nested_escape = [ESC, ESC] @ ''[m[m''"

text \<open>A line whose ninth unit shows \<open>a -> b\<close> with an escape sequence inside the
  arrow.\<close>

definition broken_arrow_line :: string where
  "broken_arrow_line = ''1 2 3 4 5 6 7 8 a -'' @ [ESC] @ ''[m> b''"

definition symlink_line :: string where
  "symlink_line =
     ''lrwxrwxrwx 1 alice staff 7 Mar 3 10:00 '' @ [DQ] @ ''link'' @ [DQ] @ '' -> ''
       @ [DQ] @ ''target'' @ [DQ]"

text \<open>Selection \<open>9,0,*\<close>, single-space separators, quotes off, and any padding
  threshold.\<close>

definition symlink_config :: "int \<Rightarrow> config" where
  "symlink_config mp =
     \<lparr>use_quotes = False, show_header = False, max_pad = mp,
      columns_to_show = ''90*'', separators = ['' '', '' '']\<rparr>"

definition symlink_fields :: "string list" where
  "symlink_fields =
     [''lrwxrwxrwx'', ''1'', ''alice'', ''staff'', ''7'', ''Mar'', ''3'', ''10:00'',
      [DQ] @ ''link'' @ [DQ], ''->'', [DQ] @ ''target'' @ [DQ]]"

definition symlink_display :: "string list" where
  "symlink_display =
     [''lrwxrwxrwx'', ''1'', ''alice'', ''staff'', ''7'', ''Mar'', ''3'', ''10:00'',
      ''link'', ''->'', ''target'']"

definition symlink_widths :: "nat list" where
  "symlink_widths = [10, 1, 5, 5, 1, 3, 1, 5, 4, 2, 6]"

definition symlink_extra :: extra_widths where
  "symlink_extra = \<lparr>ew_arrow = 4, ew_target = 6\<rparr>"

text \<open>A colored directory row as \<open>ls --color=always -lQAhF\<close> prints it, and a plain
  file row with a longer name.\<close>

definition dir_line :: string where
  "dir_line =
     ''drwxr-xr-x 2 a b 4.0K Mar 3 10:00 '' @ [ESC] @ ''[01;34m'' @ [DQ] @ ''d'' @ [DQ, ESC]
       @ ''[0m/''"

definition file_line :: string where
  "file_line = ''-rw-r--r-- 1 a b 1 Mar 3 10:00 '' @ [DQ] @ ''longfilename'' @ [DQ]"

definition perms_name_size :: config where
  "perms_name_size = default_config\<lparr>columns_to_show := ''195'', separators := ['' '', '' '']\<rparr>"

definition dir_fields :: "string list" where
  "dir_fields =
     [''drwxr-xr-x'', ''2'', ''a'', ''b'', ''4.0K'', ''Mar'', ''3'', ''10:00'',
      [ESC] @ ''[01;34m'' @ [DQ] @ ''d'' @ [DQ, ESC] @ ''[0m/'', '' '', '' '']"

definition file_fields :: "string list" where
  "file_fields =
     [''-rw-r--r--'', ''1'', ''a'', ''b'', ''1'', ''Mar'', ''3'', ''10:00'',
      [DQ] @ ''longfilename'' @ [DQ], '' '', '' '']"

definition listing_widths :: "nat list" where
  "listing_widths = [10, 1, 1, 1, 4, 3, 1, 5, 12, 1, 1]"

definition listing_extra :: extra_widths where
  "listing_extra = \<lparr>ew_arrow = 4, ew_target = 1\<rparr>"

definition quoted_name_only :: config where
  "quoted_name_only = default_config\<lparr>use_quotes := True, columns_to_show := ''9'', separators := []\<rparr>"

section \<open>Auxiliary notions for the width table\<close>



section \<open>Escape sequences: properties\<close>

lemma match_escape_not_ESC: "c \<noteq> ESC \<Longrightarrow> match_escape ts (c # cs) = None"
  by (cases cs) simp_all

lemma strip_no_ESC: "ESC \<notin> set s \<Longrightarrow> strip_ansi_codes s = s"
  by (induction s) (auto simp: match_escape_not_ESC)

lemma every_esc_append: "every_esc_starts_span (a @ b) \<Longrightarrow> every_esc_starts_span b"
  by (induction a) simp_all

lemma strip_removes_ESC:
  "every_esc_starts_span s \<Longrightarrow> ESC \<notin> set (strip_ansi_codes s)"
proof (induction s rule: strip_ansi_codes.induct)
  case 1
  then show ?case by simp
next
  case (2 c cs)
  show ?case
  proof (cases "match_escape ''mK'' (c # cs)")
    case None
    with "2.prems" have "c \<noteq> ESC" "every_esc_starts_span cs" by auto
    with None "2.IH"(1) show ?thesis by simp
  next
    case (Some pr)
    obtain p r where pr: "pr = (p, r)" by (cases pr)
    from match_escape_Some[OF Some[unfolded pr]] obtain t where
      "c # cs = (ESC # CHR ''['' # p @ [t]) @ r" by auto
    with "2.prems" have "every_esc_starts_span r"
      using every_esc_append by metis
    with "2.IH"(2)[OF Some[unfolded pr] refl] Some pr show ?thesis by simp
  qed
qed

text \<open>
  C3, as the code has it. \<open>strip_ansi_codes\<close> removes the escape sequences it finds in one
  pass from left to right. On a text in which every escape character starts an escape
  sequence, nothing is left to remove, and a second application changes nothing.
\<close>

theorem strip_ansi_codes_idempotent_on_well_formed:
  assumes "every_esc_starts_span s"
  shows "strip_ansi_codes (strip_ansi_codes s) = strip_ansi_codes s"
  using assms by (intro strip_no_ESC strip_removes_ESC)

theorem strip_ansi_codes_idempotent_on_well_formed_witness:
  "every_esc_starts_span colored_text \<and>
   strip_ansi_codes (strip_ansi_codes colored_text) = strip_ansi_codes colored_text"
proof -
  have h: "every_esc_starts_span colored_text" by code_simp
  from strip_ansi_codes_idempotent_on_well_formed[OF h] h show ?thesis by simp
qed

text \<open>
  C3 as stated fails: removing the escape sequence in the middle of \<open>nested_escape\<close> joins
  the escape character before it with the \<open>[m\<close> after it, and the second application
  removes the sequence so formed.
\<close>

theorem strip_ansi_codes_not_idempotent:
  "strip_ansi_codes nested_escape = [ESC] @ ''[m'' \<and>
   strip_ansi_codes (strip_ansi_codes nested_escape) = [] \<and>
   strip_ansi_codes (strip_ansi_codes nested_escape) \<noteq> strip_ansi_codes nested_escape"
  by code_simp

lemma is_param_not_ESC: "is_param c \<Longrightarrow> c \<noteq> ESC"
  by (auto simp: is_param_def)

lemma match_escape_append_ESC:
  assumes "ESC \<notin> set ts"
  shows "match_escape ts ((c # cs) @ ESC # r) =
     (case match_escape ts (c # cs) of
        None \<Rightarrow> None
      | Some (p, rest) \<Rightarrow> Some (p, rest @ ESC # r))"
proof (cases cs)
  case Nil
  then show ?thesis by simp
next
  case (Cons b rest)
  show ?thesis
  proof (cases "\<forall>x\<in>set rest. is_param x")
    case True
    then have d: "dropWhile is_param (rest @ ESC # r) = ESC # r" "dropWhile is_param rest = []"
      by (simp_all add: dropWhile_append2 is_param_def)
    show ?thesis by (simp add: Cons assms d)
  next
    case False
    then obtain x where "x \<in> set rest" "\<not> is_param x" by auto
    then have d: "dropWhile is_param (rest @ ESC # r) = dropWhile is_param rest @ ESC # r"
      "takeWhile is_param (rest @ ESC # r) = takeWhile is_param rest"
      by (simp_all add: dropWhile_append1 takeWhile_append1)
    from False obtain t rest' where t: "dropWhile is_param rest = t # rest'"
      by (cases "dropWhile is_param rest") (auto simp: dropWhile_eq_Nil_conv)
    show ?thesis by (simp add: Cons d t)
  qed
qed

lemma finditer_m_append_ESC:
  "finditer_m (t @ ESC # r) = finditer_m t @ finditer_m (ESC # r)"
proof (induction t rule: finditer_m.induct)
  case 1
  then show ?case by simp
next
  case (2 c cs)
  have m: "match_escape ''m'' ((c # cs) @ ESC # r) =
     (case match_escape ''m'' (c # cs) of
        None \<Rightarrow> None
      | Some (p, rest) \<Rightarrow> Some (p, rest @ ESC # r))"
    by (rule match_escape_append_ESC) simp
  show ?case
  proof (cases "match_escape ''m'' (c # cs)")
    case None
    with m have "match_escape ''m'' (c # cs @ ESC # r) = None" by simp
    with None "2.IH"(1) show ?thesis by simp
  next
    case (Some pr)
    obtain p rest where pr: "pr = (p, rest)" by (cases pr)
    with m Some have "match_escape ''m'' (c # cs @ ESC # r) = Some (p, rest @ ESC # r)" by simp
    with Some pr "2.IH"(2)[OF Some[unfolded pr] refl] show ?thesis by simp
  qed
qed

lemma finditer_m_no_ESC: "ESC \<notin> set s \<Longrightarrow> finditer_m s = []"
  by (induction s) (auto simp: match_escape_not_ESC)

lemma params_scan:
  assumes "list_all is_param p" "\<not> is_param t"
  shows "dropWhile is_param (p @ t # r) = t # r" "takeWhile is_param (p @ t # r) = p"
  using assms by (induction p) simp_all

lemma find_append_case:
  "List.find P (xs @ ys) = (case List.find P xs of None \<Rightarrow> List.find P ys | Some x \<Rightarrow> Some x)"
  by (induction xs) simp_all

lemma finditer_m_skip_no_ESC:
  "ESC \<notin> set q \<Longrightarrow> finditer_m (q @ u) = finditer_m u"
  by (induction q) (auto simp: match_escape_not_ESC)

lemma finditer_m_sequence_m:
  assumes "list_all is_param p"
  shows "finditer_m (t @ ESC # CHR ''['' # p @ CHR ''m'' # u) = finditer_m t @ p # finditer_m u"
proof -
  have "finditer_m (ESC # CHR ''['' # p @ CHR ''m'' # u) = p # finditer_m u"
    using params_scan[OF assms, of "CHR ''m''" u] by (simp add: is_param_def)
  then show ?thesis by (simp add: finditer_m_append_ESC)
qed

lemma finditer_m_sequence_K:
  assumes "list_all is_param p"
  shows "finditer_m (t @ ESC # CHR ''['' # p @ CHR ''K'' # u) = finditer_m t @ finditer_m u"
proof -
  have "ESC \<notin> set (CHR ''['' # p @ ''K'')"
    using assms by (auto simp: list_all_iff dest: is_param_not_ESC)
  from finditer_m_skip_no_ESC[OF this, of u]
  have "finditer_m (CHR ''['' # p @ CHR ''K'' # u) = finditer_m u" by simp
  then have "finditer_m (ESC # CHR ''['' # p @ CHR ''K'' # u) = finditer_m u"
    using params_scan[OF assms, of "CHR ''K''" u] by (simp add: is_param_def)
  then show ?thesis by (simp add: finditer_m_append_ESC)
qed

lemma get_color_code_empty_iff:
  "(get_color_code u = []) = (List.find (\<lambda>code. code \<noteq> ''0'') (rev (finditer_m u)) = None)"
  by (simp add: get_color_code_def split: option.splits)

lemma get_color_code_no_ESC: "ESC \<notin> set u \<Longrightarrow> get_color_code u = []"
  by (simp add: get_color_code_def finditer_m_no_ESC)

lemma get_color_code_sequence_m:
  assumes "list_all is_param p"
  shows "get_color_code (t @ ESC # CHR ''['' # p @ CHR ''m'' # u) =
     (if get_color_code u \<noteq> [] then get_color_code u
      else if p = ''0'' then get_color_code t else ESC # CHR ''['' # p @ ''m'')"
  unfolding get_color_code_empty_iff
  by (simp add: get_color_code_def finditer_m_sequence_m[OF assms] find_append_case
        split: option.splits)

lemma get_color_code_sequence_K:
  assumes "list_all is_param p"
  shows "get_color_code (t @ ESC # CHR ''['' # p @ CHR ''K'' # u) =
     (if get_color_code u \<noteq> [] then get_color_code u else get_color_code t)"
  unfolding get_color_code_empty_iff
  by (simp add: get_color_code_def finditer_m_sequence_K[OF assms] find_append_case
        split: option.splits)

text \<open>
  C10. Take an escape sequence anywhere in a text: \<open>t\<close> before it, \<open>u\<close> after it. When \<open>u\<close>
  has no escape character, \<open>get_color_code\<close> returns \<open>ESC[m\<close> and \<open>ESC[00m\<close> as the color
  and skips \<open>ESC[0m\<close>, giving the result for \<open>t\<close>. For every parameter string \<open>p\<close> and every
  \<open>u\<close>: a color found in \<open>u\<close> is the result; otherwise a sequence \<open>ESC[p m\<close> is the result
  unless \<open>p\<close> is exactly \<open>0\<close>, and then the result is the one for \<open>t\<close>; a sequence
  \<open>ESC[p K\<close> is never looked at, and the result is the one for \<open>t\<close>.
\<close>

theorem get_color_code_resets_on_exact_0_only:
  "(ESC \<notin> set u \<longrightarrow>
       get_color_code (t @ [ESC] @ ''[m'' @ u) = [ESC] @ ''[m''
     \<and> get_color_code (t @ [ESC] @ ''[00m'' @ u) = [ESC] @ ''[00m''
     \<and> get_color_code (t @ [ESC] @ ''[0m'' @ u) = get_color_code t)
   \<and> (list_all is_param p \<longrightarrow>
       get_color_code (t @ [ESC] @ ''['' @ p @ ''m'' @ u) =
         (if get_color_code u \<noteq> [] then get_color_code u
          else if p = ''0'' then get_color_code t else [ESC] @ ''['' @ p @ ''m'')
     \<and> get_color_code (t @ [ESC] @ ''['' @ p @ ''K'' @ u) =
         (if get_color_code u \<noteq> [] then get_color_code u else get_color_code t))"
proof -
  have q: "list_all is_param []" "list_all is_param ''00''" "list_all is_param ''0''"
    by (simp_all add: is_param_def)
  from get_color_code_sequence_m[OF q(1), of t u] get_color_code_sequence_m[OF q(2), of t u]
    get_color_code_sequence_m[OF q(3), of t u] get_color_code_sequence_m[of p t u]
    get_color_code_sequence_K[of p t u] get_color_code_no_ESC[of u]
  show ?thesis by simp
qed

theorem get_color_code_resets_on_exact_0_only_witness:
  "ESC \<notin> set ''d/'' \<and> list_all is_param ''01;34''
   \<and> get_color_code (''ab'' @ [ESC] @ ''[m'' @ ''d/'') = [ESC] @ ''[m''
   \<and> get_color_code (''ab'' @ [ESC] @ ''[00m'' @ ''d/'') = [ESC] @ ''[00m''
   \<and> get_color_code (''ab'' @ [ESC] @ ''[0m'' @ ''d/'') = get_color_code ''ab''
   \<and> get_color_code (''ab'' @ [ESC] @ ''['' @ ''01;34'' @ ''m'' @ ''d/'') = [ESC] @ ''['' @ ''01;34'' @ ''m''
   \<and> get_color_code (''ab'' @ [ESC] @ ''['' @ ''01;34'' @ ''K'' @ ''d/'') = get_color_code ''ab''"
proof -
  have h: "ESC \<notin> set ''d/''" "list_all is_param ''01;34''"
    by (simp_all add: is_param_def)
  have e: "get_color_code ''d/'' = []" "''01;34'' \<noteq> ''0''" by code_simp+
  from get_color_code_resets_on_exact_0_only[of "''d/''" "''ab''" "''01;34''"] h
  have "get_color_code (''ab'' @ [ESC] @ ''[m'' @ ''d/'') = [ESC] @ ''[m''
     \<and> get_color_code (''ab'' @ [ESC] @ ''[00m'' @ ''d/'') = [ESC] @ ''[00m''
     \<and> get_color_code (''ab'' @ [ESC] @ ''[0m'' @ ''d/'') = get_color_code ''ab''"
    and "get_color_code (''ab'' @ [ESC] @ ''['' @ ''01;34'' @ ''m'' @ ''d/'') =
         (if get_color_code ''d/'' \<noteq> [] then get_color_code ''d/''
          else if ''01;34'' = ''0'' then get_color_code ''ab'' else [ESC] @ ''['' @ ''01;34'' @ ''m'')"
    and "get_color_code (''ab'' @ [ESC] @ ''['' @ ''01;34'' @ ''K'' @ ''d/'') =
         (if get_color_code ''d/'' \<noteq> [] then get_color_code ''d/'' else get_color_code ''ab'')"
    by blast+
  with h e show ?thesis by (simp only: if_False if_True simp_thms)
qed

section \<open>Quote unwrapper: properties\<close>

text \<open>
  C6. The quoted value \<open>"a"b"\<close> followed by the indicator \<open>/\<close>, unwrapped with the
  indicator kept, is \<open>a"b/\<close>.
\<close>

theorem strip_quotes_python_embedded_quote:
  "strip_quotes_python ([DQ] @ ''a'' @ [DQ] @ ''b'' @ [DQ] @ ''/'') True = ''a'' @ [DQ] @ ''b/''"
  by code_simp

section \<open>Line tokenizer: properties\<close>

text \<open>
  C1 fails on the code. The tokenizer looks for \<open>' -> '\<close> in the text without escape
  sequences and then splits the text with them; on \<open>broken_arrow_line\<close> the first has
  the separator and the second has not, and unpacking the split raises \<open>ValueError\<close>.
\<close>

theorem split_line_into_columns_raises:
  "split_line_into_columns broken_arrow_line = Inl ValueError"
  by code_simp

text \<open>The exception ends the run: the width pass tokenizes every line first.\<close>

lemma main_print_raises:
  "main_print default_config [broken_arrow_line] = Inl ValueError"
  by code_simp

text \<open>When the tokenizer returns, it returns 11 fields.\<close>

lemma split_line_into_columns_length:
  "split_line_into_columns line = Inr cols \<Longrightarrow> length cols = 11"
  by (auto simp: split_line_into_columns_def Let_def split: if_splits list.splits)

section \<open>Table renderer: properties\<close>

lemma symlink_tokenized:
  "split_line_into_columns symlink_line = Inr symlink_fields"
  "length symlink_fields = 11"
  "take 5 symlink_line \<noteq> ''total''"
  by code_simp+

lemma symlink_measured:
  "calculate_column_widths [symlink_line] True = Inr (symlink_widths, symlink_extra)"
  by code_simp

lemma symlink_output_cols:
  "display_cols_of False symlink_fields = symlink_display"
  "output_cols_loop symlink_display symlink_extra ''90*'' = [''link'', '' -> '', ''target'']"
  by code_simp+

lemma symlink_visible:
  "strip_ansi_codes ''link'' = ''link''"
  "strip_ansi_codes ''target'' = ''target''"
  "py_strip (strip_ansi_codes '' -> '') = ''->''"
  "py_strip (strip_ansi_codes ''target'') = ''target''"
  by code_simp+

lemma symlink_pad:
  "pad_loop mp symlink_widths symlink_extra [''link'', '' -> '', ''target''] 0 ''90*'' []
     = Inr [''link'', '' -> '', ''target'']"
  by (auto simp add: pad_step_def py_get_def has_following_def symlink_visible digit_val_def
        ljust_def symlink_widths_def symlink_extra_def)

text \<open>
  C5, as the code has it. The arrow column is the four characters \<open>' -> '\<close>, and a
  separator stands on each side of it: the line printed for \<open>symlink_line\<close> with selection
  \<open>9,0,*\<close>, single-space separators and quotes off has two spaces on each side of the
  arrow, for every padding threshold. The run prints this line and the count.
\<close>

theorem symlink_scenario_output:
  "main_print (symlink_config mp) [symlink_line] = Inr [''link  ->  target'', ''1 found'']"
proof -
  have cfg: "use_quotes (symlink_config mp) = False" "show_header (symlink_config mp) = False"
    "separators (symlink_config mp) = ['' '', '' '']"
    "columns_to_show (symlink_config mp) = ''90*''" "max_pad (symlink_config mp) = mp"
    by (simp_all add: symlink_config_def)
  have "render_columns (symlink_config mp) symlink_widths symlink_extra symlink_display
          = Inr [''link'', '' -> '', ''target'']"
    unfolding render_columns_def cfg symlink_output_cols by (rule symlink_pad)
  then have "process_line (symlink_config mp) symlink_widths symlink_extra symlink_line
          = Inr (''link  ->  target'', 1)"
    by (simp add: process_line_def symlink_tokenized cfg symlink_output_cols)
  moreover have "str_nat 1 = ''1''" by code_simp
  ultimately show ?thesis
    by (simp add: main_print_def cfg symlink_measured symlink_tokenized)
qed

text \<open>C5 as stated fails: with the default threshold 5 the line printed is not
  \<open>link -> target\<close>.\<close>

theorem symlink_scenario_not_single_spaced:
  "main_print (symlink_config 5) [symlink_line] \<noteq> Inr [''link -> target'', ''1 found'']"
  by code_simp

text \<open>
  C2 fails on the code. The tokenizer pads every line to 11 fields, so the test
  \<open>len(columns) == 11\<close> of the rendering loop holds for every line and the branch that
  prints the line unchanged is never taken: the line \<open>dir1:\<close>, which \<open>ls\<close> prints before
  the listing of a directory when it is given several, is rendered as a row, padded with
  15 spaces, and counted.
\<close>

theorem malformed_line_rendered_and_counted:
  "main_print default_config [''dir1:''] = Inr [''dir1:               '', ''1 found'']"
  by code_simp

text \<open>
  C8 fails on the code. With selection \<open>1,9,5\<close> the filename column of \<open>dir_line\<close> is the
  second column, its padding of 10 is highlighted and its color is \<open>ESC[01;34m\<close>; the
  text of the first column is followed by the separator, not by the color: at index
  \<open>i\<close> the list \<open>selected_padded\<close> has at most \<open>i\<close> entries, and the test
  \<open>i < len(selected_padded)\<close> fails.
\<close>

theorem highlight_leaves_previous_column:
  "main_print perms_name_size [dir_line, file_line] =
     Inr [''drwxr-xr-x '' @ [ESC] @ ''[01;34md'' @ [ESC] @ ''[0m/'' @ [ESC] @ ''[01;34m''
            @ [ESC] @ ''[7m          '' @ [ESC] @ ''[27m'' @ [ESC] @ ''[0m 4.0K'',
          ''-rw-r--r-- longfilename 1   '', ''2 found'']"
  by code_simp

section \<open>Width calculator: properties\<close>

























section \<open>Padding loop: properties\<close>

lemma output_col_valid:
  "c \<in> set ''1234567890*'' \<Longrightarrow> \<exists>x. output_col d e c = [x]"
  by (auto simp: output_col_def)

lemma output_cols_loop_length:
  "set cts \<subseteq> set ''1234567890*'' \<Longrightarrow> length (output_cols_loop d e cts) = length cts"
proof (induction cts)
  case Nil
  then show ?case by simp
next
  case (Cons c cts)
  then have "c \<in> set ''1234567890*''" by simp
  from output_col_valid[OF this] obtain x where "output_col d e c = [x]" ..
  with Cons show ?case by simp
qed

lemma output_cols_loop_nth:
  "set cts \<subseteq> set ''1234567890*'' \<Longrightarrow> i < length cts \<Longrightarrow>
     output_col d e (cts ! i) = [output_cols_loop d e cts ! i]"
proof (induction cts arbitrary: i)
  case Nil
  then show ?case by simp
next
  case (Cons c cts)
  then have "c \<in> set ''1234567890*''" by simp
  from output_col_valid[OF this] obtain x where x: "output_col d e c = [x]" ..
  show ?case
  proof (cases i)
    case 0
    with x show ?thesis by simp
  next
    case (Suc k)
    with Cons x show ?thesis by simp
  qed
qed

lemma has_following_valid:
  assumes "set rest \<subseteq> set ''1234567890*''" "rest \<noteq> [] \<Longrightarrow> Suc i < length ocs"
  shows "has_following ocs i rest =
           Inr (rest \<noteq> [] \<and> py_strip (strip_ansi_codes (ocs ! Suc i)) \<noteq> [])"
proof (cases rest)
  case Nil
  then show ?thesis by (simp add: has_following_def)
next
  case (Cons c' r)
  with assms have "c' \<in> set ''1234567890*''" "Suc i < length ocs" by auto
  with Cons show ?thesis by (simp add: has_following_def py_get_def)
qed

text \<open>One step of the padding loop for a valid column identifier, when the list has
  at most \<open>i\<close> entries: one entry is appended and no earlier entry changes.\<close>

lemma pad_step_cell:
  assumes "c \<in> set ''1234567890*''" "i < length ocs" "set rest \<subseteq> set ''1234567890*''"
    "rest \<noteq> [] \<Longrightarrow> Suc i < length ocs" "length sp \<le> i"
  shows "pad_step mp w e ocs i c rest sp =
     Inr (sp @ [if c = CHR ''0'' then ljust (ocs ! i) (ew_arrow e)
          else
            let col = ocs ! i;
                padding_len = int (if c = CHR ''*'' then ew_target e else w ! (digit_val c - 1))
                                - int (length (strip_ansi_codes col))
            in if (c = CHR ''9'' \<or> c = CHR ''*'') \<and> 0 < mp \<and> mp \<le> padding_len
                  \<and> rest \<noteq> [] \<and> py_strip (strip_ansi_codes (ocs ! Suc i)) \<noteq> []
               then col @ reverse_padding (get_color_code col) padding_len
               else col @ replicate (nat padding_len) CHR '' ''])"
proof -
  note hf = has_following_valid[OF assms(3,4)]
  from assms(1) consider "c = CHR ''0''" | "c = CHR ''*''" | "c \<in> set ''123456789''" by auto
  then show ?thesis
  proof cases
    case 1
    with assms(2) show ?thesis by (simp add: pad_step_def py_get_def)
  next
    case 2
    with assms(2,5) hf show ?thesis by (simp add: pad_step_def py_get_def Let_def)
  next
    case 3
    then have "c \<noteq> CHR ''0''" "c \<noteq> CHR ''*''" by auto
    with 3 assms(2,5) hf show ?thesis
      by (cases "c = CHR ''9''") (simp_all add: pad_step_def py_get_def Let_def del: list.set)
  qed
qed

lemma pad_loop_cells:
  assumes "set rest \<subseteq> set ''1234567890*''" "i + length rest \<le> length ocs" "length sp = i"
  shows "\<exists>sp'. pad_loop mp w e ocs i rest sp = Inr sp' \<and> length sp' = i + length rest
           \<and> take i sp' = sp
           \<and> (\<forall>j<length rest.
                 pad_step mp w e ocs (i + j) (rest ! j) (drop (Suc j) rest) [] = Inr [sp' ! (i + j)])"
  using assms
proof (induction rest arbitrary: i sp)
  case Nil
  then show ?case by simp
next
  case (Cons c rest)
  from Cons.prems have v: "c \<in> set ''1234567890*''" "set rest \<subseteq> set ''1234567890*''"
    "i < length ocs" "rest \<noteq> [] \<Longrightarrow> Suc i < length ocs"
    by (auto simp: neq_Nil_conv)
  from pad_step_cell[OF v(1,3,2,4), of "[]" mp w e] obtain x where
    x: "pad_step mp w e ocs i c rest [] = Inr [x]" by auto
  from Cons.prems(3) have "length sp \<le> i" by simp
  from pad_step_cell[OF v(1,3,2,4) this, of mp w e] x
  have s: "pad_step mp w e ocs i c rest sp = Inr (sp @ [x])"
    by (simp add: pad_step_cell[OF v(1,3,2,4), of "[]" mp w e])
  from Cons.prems have "Suc i + length rest \<le> length ocs" "length (sp @ [x]) = Suc i" by simp_all
  from Cons.IH[OF v(2) this] obtain sp' where
    sp': "pad_loop mp w e ocs (Suc i) rest (sp @ [x]) = Inr sp'"
      "length sp' = Suc i + length rest" "take (Suc i) sp' = sp @ [x]"
      "\<forall>j<length rest.
          pad_step mp w e ocs (Suc i + j) (rest ! j) (drop (Suc j) rest) [] = Inr [sp' ! (Suc i + j)]"
    by blast
  from sp'(3) Cons.prems(3) have t: "take i sp' = sp"
    by (metis append_eq_conv_conj take_Suc_conv_app_nth butlast_snoc butlast_take diff_Suc_1 sp'(2) le_add1)
  from sp'(2,3) Cons.prems(3) have n: "sp' ! i = x"
    by (metis nth_take lessI nth_append_length)
  have "pad_step mp w e ocs (i + j) ((c # rest) ! j) (drop (Suc j) (c # rest)) [] = Inr [sp' ! (i + j)]"
    if "j < length (c # rest)" for j
  proof (cases j)
    case 0
    with x n show ?thesis by simp
  next
    case (Suc k)
    with that sp'(4) show ?thesis by simp
  qed
  with s sp'(1,2) t show ?case by simp
qed


lemma render_columns_nth:
  assumes "set cts \<subseteq> set ''1234567890*''" "cts = columns_to_show cfg"
    "ocs = output_cols_loop d e cts"
  shows "\<exists>sp. render_columns cfg w e d = Inr sp \<and> length sp = length cts
     \<and> (\<forall>i<length cts. sp ! i =
          (if cts ! i = CHR ''0'' then ljust (ocs ! i) (ew_arrow e)
           else
             let col = ocs ! i;
                 padding_len = int (if cts ! i = CHR ''*'' then ew_target e
                                    else w ! (digit_val (cts ! i) - 1))
                                 - int (length (strip_ansi_codes col))
             in if (cts ! i = CHR ''9'' \<or> cts ! i = CHR ''*'') \<and> 0 < max_pad cfg
                   \<and> max_pad cfg \<le> padding_len
                   \<and> Suc i < length cts \<and> py_strip (strip_ansi_codes (ocs ! Suc i)) \<noteq> []
                then col @ reverse_padding (get_color_code col) padding_len
                else col @ replicate (nat padding_len) CHR '' ''))"
proof -
  have len: "length ocs = length cts"
    using assms(1,3) by (simp add: output_cols_loop_length)
  then have "0 + length cts \<le> length ocs" "length ([] :: string list) = 0" by simp_all
  from pad_loop_cells[OF assms(1) this, of "max_pad cfg" w e] obtain sp where
    sp: "pad_loop (max_pad cfg) w e ocs 0 cts [] = Inr sp" "length sp = length cts"
      "\<forall>j<length cts. pad_step (max_pad cfg) w e ocs (0 + j) (cts ! j) (drop (Suc j) cts) []
          = Inr [sp ! (0 + j)]"
    by auto
  have "sp ! i =
          (if cts ! i = CHR ''0'' then ljust (ocs ! i) (ew_arrow e)
           else
             let col = ocs ! i;
                 padding_len = int (if cts ! i = CHR ''*'' then ew_target e
                                    else w ! (digit_val (cts ! i) - 1))
                                 - int (length (strip_ansi_codes col))
             in if (cts ! i = CHR ''9'' \<or> cts ! i = CHR ''*'') \<and> 0 < max_pad cfg
                   \<and> max_pad cfg \<le> padding_len
                   \<and> Suc i < length cts \<and> py_strip (strip_ansi_codes (ocs ! Suc i)) \<noteq> []
                then col @ reverse_padding (get_color_code col) padding_len
                else col @ replicate (nat padding_len) CHR '' '')"
    if i: "i < length cts" for i
  proof -
    from i have "cts ! i \<in> set cts" by (rule nth_mem)
    with assms(1) have v1: "cts ! i \<in> set ''1234567890*''" by (rule subsetD)
    from i len have v2: "i < length ocs" by simp
    have "set (drop (Suc i) cts) \<subseteq> set cts" by (rule set_drop_subset)
    with assms(1) have v3: "set (drop (Suc i) cts) \<subseteq> set ''1234567890*''"
      by (rule order_trans[rotated])
    have v4: "Suc i < length ocs" if "drop (Suc i) cts \<noteq> []"
      using that len by simp
    have v5: "length ([] :: string list) \<le> i" by simp
    have r: "(drop (Suc i) cts \<noteq> []) = (Suc i < length cts)" by auto
    from sp(3) i have "pad_step (max_pad cfg) w e ocs i (cts ! i) (drop (Suc i) cts) [] = Inr [sp ! i]"
      by simp
    with pad_step_cell[OF v1 v2 v3 v4 v5, of "max_pad cfg" w e]
    show ?thesis
      by (simp only: r sum.inject list.inject append_Nil simp_thms)
  qed
  with sp(1,2) show ?thesis
    by (simp add: render_columns_def assms(2,3)[symmetric])
qed

lemma reverse_padding_not_plain:
  "reverse_padding color n \<noteq> replicate (nat n) CHR '' ''"
  "replicate (nat n) CHR '' '' \<noteq> reverse_padding color n"
proof -
  have "length (reverse_padding color n) \<noteq> length (replicate (nat n) CHR '' '')"
    by (simp add: reverse_padding_def)
  then show "reverse_padding color n \<noteq> replicate (nat n) CHR '' ''"
    "replicate (nat n) CHR '' '' \<noteq> reverse_padding color n"
    by metis+
qed

lemma digit_val_9: "digit_val CHR ''9'' = 9"
  by (simp add: digit_val_def)

text \<open>
  C4. For a selection of valid column identifiers the padded texts are computed without
  an exception, one for each selected column. For a filename (\<open>9\<close>) or target (\<open>*\<close>)
  column at index \<open>i\<close>, the padded text is the column text followed by the reverse-video
  padding if and only if the threshold is positive, the padding length reaches it and
  the next selected column has visible content; it is the column text followed by plain
  spaces if and only if one of the three fails. With threshold 0 every padded text is
  the column text followed by spaces only, and so is the last one for every threshold.
\<close>

theorem reverse_highlight_iff:
  assumes "set cts \<subseteq> set ''1234567890*''" "cts = columns_to_show cfg"
    "ocs = output_cols_loop display_cols extra cts"
  shows "\<exists>sp. render_columns cfg widths extra display_cols = Inr sp \<and> length sp = length cts
     \<and> (\<forall>i<length cts. cts ! i = CHR ''9'' \<or> cts ! i = CHR ''*'' \<longrightarrow>
          (let col = ocs ! i;
               padding_len = int (if cts ! i = CHR ''9'' then widths ! 8 else ew_target extra)
                               - int (length (strip_ansi_codes col));
               following = (Suc i < length cts \<and> py_strip (strip_ansi_codes (ocs ! Suc i)) \<noteq> []);
               highlight = (0 < max_pad cfg \<and> max_pad cfg \<le> padding_len \<and> following)
           in (sp ! i = col @ reverse_padding (get_color_code col) padding_len) = highlight
            \<and> (sp ! i = col @ replicate (nat padding_len) CHR '' '') = (\<not> highlight)))
     \<and> (max_pad cfg = 0 \<longrightarrow> (\<forall>i<length cts. \<exists>n. sp ! i = ocs ! i @ replicate n CHR '' ''))
     \<and> (cts \<noteq> [] \<longrightarrow> (\<exists>n. last sp = last ocs @ replicate n CHR '' ''))"
proof -
  from render_columns_nth[OF assms, of widths] obtain sp where
    sp: "render_columns cfg widths extra display_cols = Inr sp" "length sp = length cts"
    and cell: "\<And>i. i < length cts \<Longrightarrow> sp ! i =
          (if cts ! i = CHR ''0'' then ljust (ocs ! i) (ew_arrow extra)
           else
             let col = ocs ! i;
                 padding_len = int (if cts ! i = CHR ''*'' then ew_target extra
                                    else widths ! (digit_val (cts ! i) - 1))
                                 - int (length (strip_ansi_codes col))
             in if (cts ! i = CHR ''9'' \<or> cts ! i = CHR ''*'') \<and> 0 < max_pad cfg
                   \<and> max_pad cfg \<le> padding_len
                   \<and> Suc i < length cts \<and> py_strip (strip_ansi_codes (ocs ! Suc i)) \<noteq> []
                then col @ reverse_padding (get_color_code col) padding_len
                else col @ replicate (nat padding_len) CHR '' '')"
    by blast
  have len: "length ocs = length cts"
    using assms(1,3) by (simp add: output_cols_loop_length)
  have a: "(let col = ocs ! i;
               padding_len = int (if cts ! i = CHR ''9'' then widths ! 8 else ew_target extra)
                               - int (length (strip_ansi_codes col));
               following = (Suc i < length cts \<and> py_strip (strip_ansi_codes (ocs ! Suc i)) \<noteq> []);
               highlight = (0 < max_pad cfg \<and> max_pad cfg \<le> padding_len \<and> following)
           in (sp ! i = col @ reverse_padding (get_color_code col) padding_len) = highlight
            \<and> (sp ! i = col @ replicate (nat padding_len) CHR '' '') = (\<not> highlight))"
    if "i < length cts" "cts ! i = CHR ''9'' \<or> cts ! i = CHR ''*''" for i
    using that(2)
  proof
    assume c: "cts ! i = CHR ''9''"
    show ?thesis
      unfolding cell[OF that(1)] Let_def c
      by (simp add: digit_val_9 reverse_padding_not_plain)
  next
    assume c: "cts ! i = CHR ''*''"
    show ?thesis
      unfolding cell[OF that(1)] Let_def c
      by (simp add: reverse_padding_not_plain)
  qed
  have b: "\<exists>n. sp ! i = ocs ! i @ replicate n CHR '' ''"
    if "i < length cts" "max_pad cfg = 0 \<or> Suc i = length cts" for i
  proof (cases "cts ! i = CHR ''0''")
    case True
    with cell[OF that(1)] show ?thesis by (auto simp: ljust_def)
  next
    case False
    from that(2) have "\<not> (0 < max_pad cfg \<and> Suc i < length cts)" by auto
    with False cell[OF that(1)] show ?thesis by (auto simp: Let_def)
  qed
  have l: "\<exists>n. last sp = last ocs @ replicate n CHR '' ''" if "cts \<noteq> []"
  proof -
    from that have i: "length cts - 1 < length cts" "Suc (length cts - 1) = length cts" by simp_all
    from that sp(2) have "sp \<noteq> []" by auto
    then have ls: "last sp = sp ! (length sp - 1)" by (rule last_conv_nth)
    from that len have "ocs \<noteq> []" by auto
    then have "last ocs = ocs ! (length ocs - 1)" by (rule last_conv_nth)
    with ls sp(2) len have "last sp = sp ! (length cts - 1)" "last ocs = ocs ! (length cts - 1)"
      by simp_all
    with b[OF i(1)] i(2) show ?thesis by simp
  qed
  from sp a b l show ?thesis by blast
qed

theorem reverse_highlight_iff_witness:
  "set (columns_to_show perms_name_size) \<subseteq> set ''1234567890*''
   \<and> 1 < length (columns_to_show perms_name_size)
   \<and> columns_to_show perms_name_size ! 1 = CHR ''9''
   \<and> (\<exists>sp. render_columns perms_name_size listing_widths listing_extra
               (display_cols_of (use_quotes perms_name_size) dir_fields) = Inr sp
            \<and> length sp = 3
            \<and> sp ! 1 = [ESC] @ ''[01;34md'' @ [ESC] @ ''[0m/'' @ [ESC] @ ''[01;34m'' @ [ESC]
                 @ ''[7m          '' @ [ESC] @ ''[27m'' @ [ESC] @ ''[0m'')"
proof -
  let ?cts = "columns_to_show perms_name_size"
  let ?d = "display_cols_of (use_quotes perms_name_size) dir_fields"
  let ?ocs = "output_cols_loop ?d listing_extra ?cts"
  let ?lit = "[ESC] @ ''[01;34md'' @ [ESC] @ ''[0m/'' @ [ESC] @ ''[01;34m'' @ [ESC]
                 @ ''[7m          '' @ [ESC] @ ''[27m'' @ [ESC] @ ''[0m''"
  have h1: "set ?cts \<subseteq> set ''1234567890*''" by code_simp
  have hi: "1 < length ?cts" by code_simp
  have h9: "?cts ! 1 = CHR ''9''" by code_simp
  then have hc: "?cts ! 1 = CHR ''9'' \<or> ?cts ! 1 = CHR ''*''" ..
  have len: "length ?cts = 3" by code_simp
  have ev: "let col = ?ocs ! 1;
               padding_len = int (if ?cts ! 1 = CHR ''9'' then listing_widths ! 8 else ew_target listing_extra)
                               - int (length (strip_ansi_codes col));
               following = (Suc 1 < length ?cts \<and> py_strip (strip_ansi_codes (?ocs ! Suc 1)) \<noteq> []);
               highlight = (0 < max_pad perms_name_size \<and> max_pad perms_name_size \<le> padding_len \<and> following)
           in highlight"
    by code_simp
  have lit: "let col = ?ocs ! 1;
               padding_len = int (if ?cts ! 1 = CHR ''9'' then listing_widths ! 8 else ew_target listing_extra)
                               - int (length (strip_ansi_codes col))
           in col @ reverse_padding (get_color_code col) padding_len = ?lit"
    by code_simp
  from reverse_highlight_iff[OF h1 refl refl, of listing_widths listing_extra ?d]
  obtain sp where r: "render_columns perms_name_size listing_widths listing_extra ?d = Inr sp"
    and l: "length sp = length ?cts"
    and a: "\<forall>i<length ?cts. ?cts ! i = CHR ''9'' \<or> ?cts ! i = CHR ''*'' \<longrightarrow>
          (let col = ?ocs ! i;
               padding_len = int (if ?cts ! i = CHR ''9'' then listing_widths ! 8 else ew_target listing_extra)
                               - int (length (strip_ansi_codes col));
               following = (Suc i < length ?cts \<and> py_strip (strip_ansi_codes (?ocs ! Suc i)) \<noteq> []);
               highlight = (0 < max_pad perms_name_size \<and> max_pad perms_name_size \<le> padding_len \<and> following)
           in (sp ! i = col @ reverse_padding (get_color_code col) padding_len) = highlight
            \<and> (sp ! i = col @ replicate (nat padding_len) CHR '' '') = (\<not> highlight))"
    by blast
  from a[rule_format, OF hi hc, unfolded Let_def] ev[unfolded Let_def] lit[unfolded Let_def]
  have "sp ! 1 = ?lit" by metis
  with r l len h1 hi h9 show ?thesis by metis
qed

lemma arrow_texts_visible:
  "strip_ansi_codes '' -> '' = '' -> ''" "strip_ansi_codes ''    '' = ''    ''"
  by code_simp+

text \<open>
  C9. For a selection of valid column identifiers, a column whose visible length exceeds
  its width is emitted as its text, whole and with no padding, and the rendering raises
  no exception. In the witness the quotes are displayed: the width 12 was measured
  without them and the quoted name has 14 visible characters.
\<close>

theorem overflowing_column_gets_no_padding:
  assumes "set cts \<subseteq> set ''1234567890*''" "cts = columns_to_show cfg"
    "ocs = output_cols_loop display_cols extra cts" "i < length cts"
    "(if cts ! i = CHR ''0'' then ew_arrow extra
      else if cts ! i = CHR ''*'' then ew_target extra
      else widths ! (digit_val (cts ! i) - 1)) < length (strip_ansi_codes (ocs ! i))"
  shows "\<exists>sp. render_columns cfg widths extra display_cols = Inr sp \<and> length sp = length cts
           \<and> sp ! i = ocs ! i"
proof -
  from render_columns_nth[OF assms(1-3), of widths] obtain sp where
    sp: "render_columns cfg widths extra display_cols = Inr sp" "length sp = length cts"
    and cell: "\<And>i. i < length cts \<Longrightarrow> sp ! i =
          (if cts ! i = CHR ''0'' then ljust (ocs ! i) (ew_arrow extra)
           else
             let col = ocs ! i;
                 padding_len = int (if cts ! i = CHR ''*'' then ew_target extra
                                    else widths ! (digit_val (cts ! i) - 1))
                                 - int (length (strip_ansi_codes col))
             in if (cts ! i = CHR ''9'' \<or> cts ! i = CHR ''*'') \<and> 0 < max_pad cfg
                   \<and> max_pad cfg \<le> padding_len
                   \<and> Suc i < length cts \<and> py_strip (strip_ansi_codes (ocs ! Suc i)) \<noteq> []
                then col @ reverse_padding (get_color_code col) padding_len
                else col @ replicate (nat padding_len) CHR '' '')"
    by blast
  have "sp ! i = ocs ! i"
  proof (cases "cts ! i = CHR ''0''")
    case True
    from output_cols_loop_nth[OF assms(1,4), of display_cols extra] True assms(3)
    have "ocs ! i = '' -> '' \<or> ocs ! i = ''    ''"
      by (auto simp: output_col_def split: if_splits)
    then have "length (strip_ansi_codes (ocs ! i)) = length (ocs ! i)"
      by (auto simp: arrow_texts_visible)
    with True assms(5) cell[OF assms(4)] show ?thesis by (simp add: ljust_def)
  next
    case False
    with assms(5) cell[OF assms(4)] show ?thesis by (auto simp: Let_def)
  qed
  with sp show ?thesis by blast
qed

lemma file_row:
  "split_line_into_columns file_line = Inr file_fields"
  "calculate_column_widths [file_line] True = Inr ([10, 1, 1, 1, 1, 3, 1, 5, 12, 1, 1], listing_extra)"
  by code_simp+

theorem overflowing_column_gets_no_padding_witness:
  "set (columns_to_show quoted_name_only) \<subseteq> set ''1234567890*''
   \<and> 0 < length (columns_to_show quoted_name_only)
   \<and> [10, 1, 1, 1, 1, 3, 1, 5, 12, 1, 1] ! 8
       < length (strip_ansi_codes ([DQ] @ ''longfilename'' @ [DQ]))
   \<and> (\<exists>sp. render_columns quoted_name_only [10, 1, 1, 1, 1, 3, 1, 5, 12, 1, 1] listing_extra
               (display_cols_of (use_quotes quoted_name_only) file_fields) = Inr sp
            \<and> length sp = 1 \<and> sp ! 0 = [DQ] @ ''longfilename'' @ [DQ])"
proof -
  let ?cts = "columns_to_show quoted_name_only"
  let ?w = "[10, 1, 1, 1, 1, 3, 1, 5, 12, 1, 1] :: nat list"
  let ?d = "display_cols_of (use_quotes quoted_name_only) file_fields"
  let ?ocs = "output_cols_loop ?d listing_extra ?cts"
  have h1: "set ?cts \<subseteq> set ''1234567890*''" by code_simp
  have h4: "0 < length ?cts" by code_simp
  have h5: "(if ?cts ! 0 = CHR ''0'' then ew_arrow listing_extra
      else if ?cts ! 0 = CHR ''*'' then ew_target listing_extra
      else ?w ! (digit_val (?cts ! 0) - 1)) < length (strip_ansi_codes (?ocs ! 0))"
    by code_simp
  have v: "?w ! 8 < length (strip_ansi_codes ([DQ] @ ''longfilename'' @ [DQ]))"
    "length ?cts = 1" "?ocs ! 0 = [DQ] @ ''longfilename'' @ [DQ]"
    by code_simp+
  from overflowing_column_gets_no_padding[OF h1 refl refl h4 h5]
  have "\<exists>sp. render_columns quoted_name_only ?w listing_extra ?d = Inr sp \<and> length sp = 1
           \<and> sp ! 0 = [DQ] @ ''longfilename'' @ [DQ]"
    unfolding v(2,3) .
  with h1 h4 v(1) show ?thesis by blast
qed

end
